theory Spec2Isabelle
  imports Main "HOL-Library.Word"
begin

unbundle bit_operations_syntax

section \<open>Common data\<close>

text \<open>
  Python \<open>bytes\<close> are lists of 8-bit words, Python \<open>str\<close> values are \<open>string\<close>s.
  Exceptions are values of the datatype \<open>exn\<close>; a function that can raise returns
  \<open>exn + 'a\<close> with \<open>Inl\<close> for the exception.
\<close>

type_synonym bytes = "8 word list"

datatype exn =
    SystemExit int
  | ConnectionError
  | TimeoutError
  | HTTPError nat string
  | MediaBytesError
  | JSONDecodeError
  | KeyError string
  | TypeError
  | ValueError
  | AttributeError
  | RequestException
  | FileNotFoundError
  | BadZipFile

text \<open>\<open>str.startswith\<close> with a single prefix, and with a tuple of prefixes.\<close>

definition startswith :: "string \<Rightarrow> string \<Rightarrow> bool" where
  "startswith s p = (take (length p) s = p)"

definition startswith_any :: "string \<Rightarrow> string list \<Rightarrow> bool" where
  "startswith_any s ps = list_ex (startswith s) ps"

section \<open>CatalogParser\<close>

subsection \<open>Resolving the catalog URL\<close>

text \<open>
  \<open>CatalogParser.fetch_catalog_url\<close>. The attribute \<open>self.catalog_url\<close> is \<open>None\<close> or a
  string; \<open>not self.catalog_url\<close> holds for \<open>None\<close> and for the empty string. The branch
  taken then decrypts the bootstrap blob with \<open>TableEncryptionService\<close> and queries the
  server; its result (a URL or an exception) is the parameter \<open>server_root\<close>.
\<close>

definition fetch_catalog_url :: "exn + string \<Rightarrow> string option \<Rightarrow> exn + string" where
  "fetch_catalog_url server_root catalog_url =
     (case catalog_url of
        None \<Rightarrow> server_root
      | Some u \<Rightarrow>
          if u = [] then server_root
          else if startswith_any u [''http://'', ''https://''] then Inr u
          else if CHR ''_'' \<in> set u then Inr (''https://prod-clientpatch.bluearchiveyostar.com/'' @ u)
          else Inr (''https://'' @ u))"

subsection \<open>Fetching the manifests\<close>

text \<open>
  A request of the \<open>requests\<close> session either raises or returns a response with a status
  code and a body. The session caches by URL, so the outcome is a function of the URL.
  \<open>Response.json()\<close> is the parameter \<open>json_of\<close> (\<open>None\<close> when the body is not JSON), and
  \<open>CatalogDecrypter.from_bytes\<close> followed by \<open>to_json\<close>, whose module lies outside the modelled
  code, is the parameter \<open>decode\<close>: the JSON document written, or the exception raised.
\<close>

datatype json =
    JNull
  | JBool bool
  | JNum int
  | JStr string
  | JArr "json list"
  | JObj "(string \<times> json) list"














subsection \<open>The normalized index\<close>

text \<open>
  The cached documents as \<open>get_game_files\<close> reads them: the entries of
  \<open>BundleFiles\<close>, and the items of the \<open>TableBundles\<close> and \<open>MediaResources\<close>
  dictionaries in their order. The keys \<open>Name\<close> and \<open>path\<close> are read with a subscript and
  hold strings; the other fields are read with \<open>get(key, 0)\<close> and may be absent.
\<close>

record bundle_file =
  bf_Name :: string
  bf_Crc :: "int option"
  bf_Size :: "int option"

record table_bundle =
  tb_crc :: "int option"
  tb_size :: "int option"

record media_resource =
  mr_path :: string
  mr_crc :: "int option"
  mr_bytes :: "int option"

text \<open>
  An entry of the index is a dictionary with the keys \<open>url\<close>, \<open>crc\<close> and \<open>size\<close>, or, for
  a media resource, \<open>url\<close>, \<open>path\<close>, \<open>crc\<close> and \<open>bytes\<close>; an absent key is \<open>None\<close>.
\<close>

record game_file =
  f_url :: string
  f_path :: "string option"
  f_crc :: int
  f_size :: "int option"
  f_bytes :: "int option"

definition get_or :: "int option \<Rightarrow> int \<Rightarrow> int" where
  "get_or v d = (case v of None \<Rightarrow> d | Some x \<Rightarrow> x)"

text \<open>\<open>str.replace(old, new)\<close> for one-character \<open>old\<close> and \<open>new\<close>.\<close>

definition str_replace :: "char \<Rightarrow> char \<Rightarrow> string \<Rightarrow> string" where
  "str_replace old new s = map (\<lambda>c. if c = old then new else c) s"

definition backslash :: char where
  "backslash = CHR 0x5C"

definition android_entry :: "string \<Rightarrow> bundle_file \<Rightarrow> game_file" where
  "android_entry server_url asset =
     \<lparr>f_url = server_url @ ''/Android/'' @ bf_Name asset, f_path = None,
      f_crc = get_or (bf_Crc asset) 0, f_size = Some (get_or (bf_Size asset) 0), f_bytes = None\<rparr>"

definition ios_entry :: "string \<Rightarrow> bundle_file \<Rightarrow> game_file" where
  "ios_entry server_url asset =
     \<lparr>f_url = server_url @ ''/iOS/'' @ bf_Name asset, f_path = None,
      f_crc = get_or (bf_Crc asset) 0, f_size = Some (get_or (bf_Size asset) 0), f_bytes = None\<rparr>"

definition table_entry :: "string \<Rightarrow> string \<times> table_bundle \<Rightarrow> game_file" where
  "table_entry server_url kv =
     \<lparr>f_url = server_url @ ''/TableBundles/'' @ fst kv, f_path = None,
      f_crc = get_or (tb_crc (snd kv)) 0, f_size = Some (get_or (tb_size (snd kv)) 0),
      f_bytes = None\<rparr>"

definition media_entry :: "string \<Rightarrow> string \<times> media_resource \<Rightarrow> game_file" where
  "media_entry server_url kv =
     \<lparr>f_url = str_replace backslash CHR ''/'' (server_url @ ''/MediaResources/'' @ mr_path (snd kv)),
      f_path = Some (str_replace backslash CHR ''/'' (mr_path (snd kv))),
      f_crc = get_or (mr_crc (snd kv)) 0, f_size = None,
      f_bytes = Some (get_or (mr_bytes (snd kv)) 0)\<rparr>"

definition get_game_files ::
  "exn + string \<Rightarrow> string option \<Rightarrow> bundle_file list \<Rightarrow> bundle_file list \<Rightarrow>
   (string \<times> table_bundle) list \<Rightarrow> (string \<times> media_resource) list \<Rightarrow>
   exn + (string \<times> game_file list) list" where
  "get_game_files server_root catalog_url android_bundle_data ios_bundle_data table_data media_data =
     (case fetch_catalog_url server_root catalog_url of
        Inl e \<Rightarrow> Inl e
      | Inr server_url \<Rightarrow>
          Inr [(''AndroidAssetBundles'', map (android_entry server_url) android_bundle_data),
               (''iOSAssetBundles'', map (ios_entry server_url) ios_bundle_data),
               (''TableBundles'', map (table_entry server_url) table_data),
               (''MediaResources'', map (media_entry server_url) media_data)])"

section \<open>CatalogFetcher\<close>

text \<open>
  \<open>pattern in content\<close> and \<open>content.index(pattern)\<close>: the least index at which the
  pattern occurs in the content, if there is one.
\<close>

fun index_of :: "bytes \<Rightarrow> bytes \<Rightarrow> nat option" where
  "index_of pat [] = (if pat = [] then Some 0 else None)"
| "index_of pat (c # cs) =
     (if take (length pat) (c # cs) = pat then Some 0
      else map_option Suc (index_of pat cs))"

text \<open>
  What \<open>Path.rglob('*')\<close> yields below a search path, in its order: an entry that is not
  a regular file, a file whose \<open>read_bytes\<close> raises, or a file with its content.
\<close>

datatype dir_entry = NotFile | Unreadable | Readable bytes

text \<open>The loop of \<open>_search_for_pattern\<close> over the entries; \<open>data[:-2]\<close> drops the last two bytes.\<close>

fun search_entries :: "dir_entry list \<Rightarrow> bytes \<Rightarrow> bytes option" where
  "search_entries [] pat = None"
| "search_entries (NotFile # es) pat = search_entries es pat"
| "search_entries (Unreadable # es) pat = search_entries es pat"
| "search_entries (Readable content # es) pat =
     (case index_of pat content of
        Some start_index \<Rightarrow>
          (let data = drop (start_index + length pat) content
           in Some (take (length data - 2) data))
      | None \<Rightarrow> search_entries es pat)"

text \<open>
  The search paths are the bundled default path and, for a version directory name \<open>v\<close>,
  the path \<open>jp/v/data/assets/bin/Data\<close> below the user data directory. The file system
  gives for each path its entries (\<open>None\<close> when the path does not exist) and the listing
  of the \<open>jp\<close> directory: names with their \<open>is_dir\<close> flag, \<open>None\<close> when it does not exist.
\<close>

datatype search_path = DefaultPath | VersionPath string

record filesystem =
  rglob :: "search_path \<Rightarrow> dir_entry list option"
  iterdir :: "(string \<times> bool) list option"

definition search_for_pattern :: "filesystem \<Rightarrow> search_path \<Rightarrow> bytes \<Rightarrow> bytes option" where
  "search_for_pattern fs path pat =
     (case rglob fs path of None \<Rightarrow> None | Some es \<Rightarrow> search_entries es pat)"

fun cache_paths_loop ::
  "filesystem \<Rightarrow> (string \<times> bool) list \<Rightarrow> search_path list \<Rightarrow> search_path list" where
  "cache_paths_loop fs [] existing_paths = []"
| "cache_paths_loop fs ((name, is_dir) # ds) existing_paths =
     (if \<not> is_dir then cache_paths_loop fs ds existing_paths
      else if rglob fs (VersionPath name) = None then cache_paths_loop fs ds existing_paths
      else if VersionPath name \<in> set existing_paths then cache_paths_loop fs ds existing_paths
      else VersionPath name # cache_paths_loop fs ds existing_paths)"

definition get_cache_paths :: "filesystem \<Rightarrow> search_path list \<Rightarrow> search_path list" where
  "get_cache_paths fs existing_paths =
     (case iterdir fs of None \<Rightarrow> [] | Some ds \<Rightarrow> cache_paths_loop fs ds existing_paths)"

definition pattern :: bytes where
  "pattern = [0x47, 0x61, 0x6D, 0x65, 0x4D, 0x61, 0x69, 0x6E, 0x43, 0x6F, 0x6E, 0x66,
              0x69, 0x67, 0x00, 0x00, 0x92, 0x03, 0x00, 0x00]"

text \<open>\<open>if version:\<close> holds for a non-empty string.\<close>

definition search_paths :: "filesystem \<Rightarrow> string option \<Rightarrow> search_path list" where
  "search_paths fs version =
     (let paths = (case version of
                     None \<Rightarrow> []
                   | Some v \<Rightarrow> if v = [] then [] else [VersionPath v]) @ [DefaultPath]
      in paths @ get_cache_paths fs paths)"

text \<open>The final loop of \<open>find_game_config\<close>; \<open>if result:\<close> fails for \<open>None\<close> and for \<open>b''\<close>.\<close>

fun first_result :: "filesystem \<Rightarrow> search_path list \<Rightarrow> bytes option" where
  "first_result fs [] = None"
| "first_result fs (path # paths) =
     (case search_for_pattern fs path pattern of
        None \<Rightarrow> first_result fs paths
      | Some result \<Rightarrow> if result \<noteq> [] then Some result else first_result fs paths)"

definition find_game_config :: "filesystem \<Rightarrow> string option \<Rightarrow> bytes option" where
  "find_game_config fs version = first_result fs (search_paths fs version)"

section \<open>TableService\<close>







section \<open>ResourceDownloader\<close>

subsection \<open>CRC-32\<close>

text \<open>
  \<open>binascii.crc32\<close>: the reflected CRC-32 with polynomial \<open>0xEDB88320\<close>, initial value
  and final complement \<open>0xFFFFFFFF\<close>, one bit at a time.
\<close>

definition crc_shift :: "32 word \<Rightarrow> 32 word" where
  "crc_shift c = (if bit c 0 then drop_bit 1 c XOR 0xEDB88320 else drop_bit 1 c)"

definition crc_update :: "32 word \<Rightarrow> 8 word \<Rightarrow> 32 word" where
  "crc_update c b =
     crc_shift (crc_shift (crc_shift (crc_shift (crc_shift (crc_shift (crc_shift (crc_shift
       (c XOR ucast b))))))))"

definition crc32 :: "bytes \<Rightarrow> 32 word" where
  "crc32 data = fold (\<lambda>b c. crc_update c b) data 0xFFFFFFFF XOR 0xFFFFFFFF"

definition crc32_of :: "bytes \<Rightarrow> int" where
  "crc32_of content = uint (crc32 content AND 0xFFFFFFFF)"

subsection \<open>The world of a download\<close>

text \<open>
  The downloader acts on the files below the output directory and on the network, and
  it prints and logs. The world is the file map together with the trace of what was
  done so far: requests sent, sleeps, and messages. The network is an environment:
  \<open>head_resp url k\<close> is the outcome of the HEAD request sent to \<open>url\<close> after \<open>k\<close> earlier
  ones, \<open>get_resp url k\<close> the same for GET. The environment also holds the two \<open>pathlib\<close>
  operations used, \<open>base / p\<close> and \<open>Path(url).name\<close>.

  A HEAD request raises \<open>ClientError\<close> or \<open>TimeoutError\<close>, or answers; the value of
  \<open>int(response.headers.get('Content-Length', 0))\<close> then is 0 for an absent header, the
  number of a well-formed one, and a \<open>ValueError\<close> otherwise. A GET attempt raises before
  the destination is opened, or the destination is opened for writing and the chunks
  arrive, after which the stream ends or raises. Exceptions of other classes, directories
  and unreadable files are not part of the model.
\<close>

datatype event =
    HEAD string
  | GET string
  | Sleep nat
  | PrintSkipping string
  | PrintSuccess string
  | LogError string
  | LogFailed string nat
  | LogHashMismatch string
  | LogNoSize string

record world =
  files :: "string \<rightharpoonup> bytes"
  trace :: "event list"

datatype content_length = Absent | Length int | Malformed

datatype head_result = HeadClientError | HeadTimeoutError | HeadResponse content_length

datatype get_result = GetRaises | GetStream "bytes list" bool

record env =
  head_resp :: "string \<Rightarrow> nat \<Rightarrow> head_result"
  get_resp :: "string \<Rightarrow> nat \<Rightarrow> get_result"
  joinpath :: "string \<Rightarrow> string \<Rightarrow> string"
  basename :: "string \<Rightarrow> string"

definition emit :: "event \<Rightarrow> world \<Rightarrow> world" where
  "emit e w = w\<lparr>trace := trace w @ [e]\<rparr>"

subsection \<open>The steps of one entry\<close>

definition get_file_path :: "env \<Rightarrow> game_file \<Rightarrow> string" where
  "get_file_path en file =
     (case f_path file of Some p \<Rightarrow> p | None \<Rightarrow> basename en (f_url file))"

definition calculate_crc32 :: "world \<Rightarrow> string \<Rightarrow> exn + int" where
  "calculate_crc32 w file_path =
     (case files w file_path of
        None \<Rightarrow> Inl FileNotFoundError
      | Some content \<Rightarrow> Inr (crc32_of content))"

definition check_existing_file :: "string \<Rightarrow> int \<Rightarrow> world \<Rightarrow> bool \<times> world" where
  "check_existing_file file_path crc w =
     (case files w file_path of
        None \<Rightarrow> (False, w)
      | Some content \<Rightarrow>
          if crc32_of content \<noteq> crc then (False, w)
          else (True, emit (PrintSkipping file_path) w))"

text \<open>
  One GET attempt. The chunks are written up to the first empty one, at which the loop
  breaks; the number of bytes written is returned, or \<open>None\<close> when the attempt raises.
\<close>

definition attempt_download :: "env \<Rightarrow> string \<Rightarrow> string \<Rightarrow> world \<Rightarrow> nat option \<times> world" where
  "attempt_download en url fp w =
     (let w1 = emit (GET url) w in
      case get_resp en url (count_list (trace w) (GET url)) of
        GetRaises \<Rightarrow> (None, w1)
      | GetStream chunks fails \<Rightarrow>
          (let written = takeWhile (\<lambda>chunk. chunk \<noteq> []) chunks;
               w2 = w1\<lparr>files := (files w1)(fp \<mapsto> concat written)\<rparr>
           in if fails \<and> length written = length chunks then (None, w2)
              else (Some (length (concat written)), w2)))"

function download_file_content_loop ::
  "env \<Rightarrow> string \<Rightarrow> string \<Rightarrow> int \<Rightarrow> nat \<Rightarrow> nat \<Rightarrow> world \<Rightarrow> bool \<times> world" where
  "download_file_content_loop en url fp size' retries attempt w =
     (if attempt < retries then
        (case attempt_download en url fp w of
           (Some bytes_downloaded, w1) \<Rightarrow>
             if int bytes_downloaded = size' then (True, emit (PrintSuccess fp) w1)
             else download_file_content_loop en url fp size' retries (attempt + 1)
                    (if attempt < retries - 1 then emit (Sleep (2 ^ attempt)) w1 else w1)
         | (None, w1) \<Rightarrow>
             download_file_content_loop en url fp size' retries (attempt + 1)
               (if attempt < retries - 1
                then emit (Sleep (2 ^ attempt)) (emit (LogError fp) w1)
                else emit (LogError fp) w1))
      else (False, emit (LogFailed fp retries) w))"
  by pat_completeness auto
termination
  by (relation "measure (\<lambda>(en, url, fp, size', retries, attempt, w). retries - attempt)") auto

declare download_file_content_loop.simps [simp del]

definition download_file_content ::
  "env \<Rightarrow> string \<Rightarrow> string \<Rightarrow> int \<Rightarrow> nat \<Rightarrow> world \<Rightarrow> bool \<times> world" where
  "download_file_content en url fp size' retries w =
     download_file_content_loop en url fp size' retries 0 w"

definition verify_download :: "string \<Rightarrow> int \<Rightarrow> world \<Rightarrow> (exn + bool) \<times> world" where
  "verify_download file_path crc w =
     (case calculate_crc32 w file_path of
        Inl e \<Rightarrow> (Inl e, w)
      | Inr c \<Rightarrow>
          if c \<noteq> crc then
            (let w1 = emit (LogHashMismatch file_path) w
             in (Inr False, w1\<lparr>files := (files w1)(file_path := None)\<rparr>))
          else (Inr True, w))"

text \<open>The loop of \<open>get_file_size\<close>, by the number of iterations left of its ten.\<close>

fun get_file_size_loop :: "env \<Rightarrow> string \<Rightarrow> nat \<Rightarrow> world \<Rightarrow> int option \<times> world" where
  "get_file_size_loop en url 0 w = (None, w)"
| "get_file_size_loop en url (Suc left) w =
     (let w1 = emit (HEAD url) w in
      case head_resp en url (count_list (trace w) (HEAD url)) of
        HeadResponse Absent \<Rightarrow> (Some 0, w1)
      | HeadResponse (Length n) \<Rightarrow> (Some n, w1)
      | HeadResponse Malformed \<Rightarrow> (None, w1)
      | HeadClientError \<Rightarrow> (None, w1)
      | HeadTimeoutError \<Rightarrow> get_file_size_loop en url left w1)"

definition get_file_size :: "env \<Rightarrow> string \<Rightarrow> world \<Rightarrow> int option \<times> world" where
  "get_file_size en url w = get_file_size_loop en url 10 w"

text \<open>
  \<open>_download_file\<close> returns nothing; the result is the exception that ended it, if any,
  and the world it leaves.
\<close>

definition download_file ::
  "env \<Rightarrow> string \<Rightarrow> string \<Rightarrow> int \<Rightarrow> nat \<Rightarrow> world \<Rightarrow> exn option \<times> world" where
  "download_file en url file_path crc retries w =
     (case check_existing_file file_path crc w of
        (True, w1) \<Rightarrow> (None, w1)
      | (False, w1) \<Rightarrow>
          (case get_file_size en url w1 of
             (None, w2) \<Rightarrow> (None, emit (LogNoSize url) w2)
           | (Some total_size, w2) \<Rightarrow>
               (case download_file_content en url file_path total_size retries w2 of
                  (False, w3) \<Rightarrow> (None, w3)
                | (True, w3) \<Rightarrow>
                    (case verify_download file_path crc w3 of
                       (Inl e, w4) \<Rightarrow> (Some e, w4)
                     | (Inr verify_success, w4) \<Rightarrow> (None, w4)))))"

subsection \<open>The batch\<close>

text \<open>
  \<open>asyncio.gather\<close> interleaves the coroutines of the entries of one category. Here they
  run one after another in list order, and an exception ends the batch; the
  interleaving itself is the subject of the next subsection.
\<close>

fun download_category :: "env \<Rightarrow> game_file list \<Rightarrow> string \<Rightarrow> world \<Rightarrow> exn option \<times> world" where
  "download_category en [] base_path w = (None, w)"
| "download_category en (file # rest) base_path w =
     (case download_file en (f_url file) (joinpath en base_path (get_file_path en file))
             (f_crc file) 3 w of
        (Some e, w1) \<Rightarrow> (Some e, w1)
      | (None, w1) \<Rightarrow> download_category en rest base_path w1)"

fun download_all_categories ::
  "env \<Rightarrow> (string \<times> game_file list) list \<Rightarrow> string list \<Rightarrow> string \<Rightarrow> world \<Rightarrow>
   exn option \<times> world" where
  "download_all_categories en [] categories output w = (None, w)"
| "download_all_categories en ((category, fs) # rest) categories output w =
     (if category \<in> set categories then
        (case download_category en fs (joinpath en output category) w of
           (Some e, w1) \<Rightarrow> (Some e, w1)
         | (None, w1) \<Rightarrow> download_all_categories en rest categories output w1)
      else download_all_categories en rest categories output w)"

definition selected_categories :: "bool \<Rightarrow> bool \<Rightarrow> bool \<Rightarrow> bool \<Rightarrow> string list" where
  "selected_categories androidassets iosassets tables media =
     map snd (filter fst
       [(androidassets, ''AndroidAssetBundles''), (iosassets, ''iOSAssetBundles''),
        (tables, ''TableBundles''), (media, ''MediaResources'')])"

text \<open>
  \<open>download\<close>, after \<open>initialize_download\<close> has produced the index: the limit only sets
  \<open>self.semaphore\<close>, which the run pairs with the outcome.
\<close>

definition download ::
  "env \<Rightarrow> (string \<times> game_file list) list \<Rightarrow> string \<Rightarrow> bool \<Rightarrow> bool \<Rightarrow> bool \<Rightarrow> bool \<Rightarrow>
   nat option \<Rightarrow> world \<Rightarrow> nat option \<times> exn option \<times> world" where
  "download en game_files output androidassets iosassets tables media limit w =
     (let categories = selected_categories androidassets iosassets tables media;
          semaphore = limit
      in (semaphore, download_all_categories en game_files categories output w))"

subsection \<open>Scheduling\<close>

text \<open>
  The coroutines that \<open>_download_category\<close> hands to \<open>asyncio.gather\<close> run interleaved on
  one thread; each gives up control where it awaits the network or a sleep. A task is
  pending until it is first run; it then skips an entry that is present with the right
  CRC, or sends its HEAD request and waits for the answer (probing). A timed-out probe
  is sent again; a probe that yields no size ends the task; a size starts the GET
  (streaming). A failed attempt sleeps and streams again, or ends the task; a complete
  transfer ends it. The state holds the semaphore that \<open>download\<close> created from the
  limit (\<open>None\<close> for \<open>float('inf')\<close>) and the phase of every task. No coroutine of the
  downloader acquires or releases the semaphore, so no step reads or changes it.
\<close>

datatype phase = Pending | Probing | Streaming | Sleeping | Finished

record pool =
  semaphore :: "nat option"
  tasks :: "phase list"

definition set_phase :: "nat \<Rightarrow> phase \<Rightarrow> pool \<Rightarrow> pool" where
  "set_phase i p s = s\<lparr>tasks := (tasks s)[i := p]\<rparr>"

inductive step :: "(nat \<Rightarrow> bool) \<Rightarrow> pool \<Rightarrow> pool \<Rightarrow> bool" for present :: "nat \<Rightarrow> bool" where
  skip: "i < length (tasks s) \<Longrightarrow> tasks s ! i = Pending \<Longrightarrow> present i \<Longrightarrow>
         step present s (set_phase i Finished s)"
| probe: "i < length (tasks s) \<Longrightarrow> tasks s ! i = Pending \<Longrightarrow> \<not> present i \<Longrightarrow>
          step present s (set_phase i Probing s)"
| probe_again: "i < length (tasks s) \<Longrightarrow> tasks s ! i = Probing \<Longrightarrow>
                step present s (set_phase i Probing s)"
| no_size: "i < length (tasks s) \<Longrightarrow> tasks s ! i = Probing \<Longrightarrow>
            step present s (set_phase i Finished s)"
| stream: "i < length (tasks s) \<Longrightarrow> tasks s ! i = Probing \<Longrightarrow>
           step present s (set_phase i Streaming s)"
| backoff: "i < length (tasks s) \<Longrightarrow> tasks s ! i = Streaming \<Longrightarrow>
            step present s (set_phase i Sleeping s)"
| retry: "i < length (tasks s) \<Longrightarrow> tasks s ! i = Sleeping \<Longrightarrow>
          step present s (set_phase i Streaming s)"
| finish: "i < length (tasks s) \<Longrightarrow> tasks s ! i = Streaming \<Longrightarrow>
           step present s (set_phase i Finished s)"

definition in_flight :: "pool \<Rightarrow> nat" where
  "in_flight s = length (filter (\<lambda>p. p = Probing \<or> p = Streaming) (tasks s))"

definition gather :: "nat option \<Rightarrow> 'a list \<Rightarrow> pool" where
  "gather limit fs = \<lparr>semaphore = limit, tasks = map (\<lambda>_. Pending) fs\<rparr>"

section \<open>Example inputs\<close>


definition example_fs :: filesystem where
  "example_fs =
     \<lparr>rglob = (\<lambda>p. case p of
                 DefaultPath \<Rightarrow> Some [NotFile, Readable (pattern @ [0, 0])]
               | VersionPath v \<Rightarrow>
                   if v = ''1.50'' then Some [Unreadable, Readable (9 # pattern @ [1, 2, 3, 4])]
                   else None),
      iterdir = Some [(''notes.txt'', False), (''1.49'', True), (''1.50'', True)]\<rparr>"


definition example_env :: env where
  "example_env =
     \<lparr>head_resp = (\<lambda>url k. if url = ''slow'' \<and> k = 0 then HeadTimeoutError
                            else if url = ''down'' then HeadTimeoutError
                            else if url = ''gone'' then HeadClientError
                            else HeadResponse (Length 1)),
      get_resp = (\<lambda>url k. if url = ''bad'' then
                              (case k of 0 \<Rightarrow> GetRaises
                               | Suc 0 \<Rightarrow> GetStream [[1, 2]] False
                               | Suc (Suc n) \<Rightarrow> GetStream [[1]] True)
                           else GetStream [[0x61]] False),
      joinpath = (\<lambda>base p. base @ ''/'' @ p),
      basename = (\<lambda>url. rev (takeWhile (\<lambda>c. c \<noteq> CHR ''/'') (rev url)))\<rparr>"

definition empty_world :: world where
  "empty_world = \<lparr>files = Map.empty, trace = []\<rparr>"



section \<open>Resolution of a catalog-url override\<close>

text \<open>
  C5, as stated, fails: an override that starts with \<open>http\<close> but with neither \<open>http://\<close>
  nor \<open>https://\<close> is not returned verbatim; it gets the scheme prepended.
\<close>

theorem fetch_catalog_url_http_prefix_counterexample:
  "startswith ''httpfoo'' ''http'' \<and>
   fetch_catalog_url (Inl ValueError) (Some ''httpfoo'') = Inr ''https://httpfoo''"
  by (simp add: fetch_catalog_url_def startswith_any_def startswith_def)

text \<open>
  C5, amended: for every non-empty override, \<open>fetch_catalog_url\<close> returns the override
  verbatim if it starts with \<open>http://\<close> or \<open>https://\<close>; otherwise, if it contains \<open>_\<close>, the
  client-patch prefix followed by the override; otherwise \<open>https://\<close> followed by the
  override.
\<close>

theorem fetch_catalog_url_override:
  "u \<noteq> [] \<Longrightarrow>
   fetch_catalog_url server_root (Some u) =
     Inr (if startswith u ''http://'' \<or> startswith u ''https://'' then u
          else if CHR ''_'' \<in> set u then ''https://prod-clientpatch.bluearchiveyostar.com/'' @ u
          else ''https://'' @ u)"
  by (simp add: fetch_catalog_url_def startswith_any_def)

theorem fetch_catalog_url_override_witness:
  "''r_47_abc'' \<noteq> [] \<and>
   fetch_catalog_url (Inl ValueError) (Some ''r_47_abc'') =
     Inr ''https://prod-clientpatch.bluearchiveyostar.com/r_47_abc''"
  using fetch_catalog_url_override [of "''r_47_abc''" "Inl ValueError"]
  by (simp add: startswith_def)

section \<open>Slashes in the media entries of the index\<close>

lemma str_replace_no_old: "old \<noteq> new \<Longrightarrow> old \<notin> set (str_replace old new s)"
  by (auto simp: str_replace_def)

lemma backslash_not_slash: "backslash \<noteq> CHR ''/''"
  by (simp add: backslash_def)

text \<open>
  C10: in the index returned by \<open>get_game_files\<close>, the \<open>url\<close> and \<open>path\<close> of every
  \<open>MediaResources\<close> entry are the formatted URL and the raw path with every backslash
  replaced by a slash, so neither contains a backslash; the URLs of the other three
  categories are the server URL, the category segment and the raw name, unchanged, and
  those entries have no \<open>path\<close>.
\<close>

theorem get_game_files_media_slashes:
  assumes "get_game_files server_root catalog_url ad idat td md = Inr idx"
  shows "\<exists>server_url android ios table media.
     fetch_catalog_url server_root catalog_url = Inr server_url \<and>
     idx = [(''AndroidAssetBundles'', android), (''iOSAssetBundles'', ios),
            (''TableBundles'', table), (''MediaResources'', media)] \<and>
     length media = length md \<and>
     (\<forall>k < length md.
        f_url (media ! k) =
          str_replace backslash CHR ''/''
            (server_url @ ''/MediaResources/'' @ mr_path (snd (md ! k))) \<and>
        f_path (media ! k) = Some (str_replace backslash CHR ''/'' (mr_path (snd (md ! k))))) \<and>
     (\<forall>e \<in> set media. backslash \<notin> set (f_url e) \<and>
        (\<exists>p. f_path e = Some p \<and> backslash \<notin> set p)) \<and>
     map f_url android = map (\<lambda>a. server_url @ ''/Android/'' @ bf_Name a) ad \<and>
     map f_url ios = map (\<lambda>a. server_url @ ''/iOS/'' @ bf_Name a) idat \<and>
     map f_url table = map (\<lambda>kv. server_url @ ''/TableBundles/'' @ fst kv) td \<and>
     (\<forall>e \<in> set (android @ ios @ table). f_path e = None)"
proof -
  from assms obtain server_url
    where su: "fetch_catalog_url server_root catalog_url = Inr server_url"
      and idx: "idx = [(''AndroidAssetBundles'', map (android_entry server_url) ad),
                      (''iOSAssetBundles'', map (ios_entry server_url) idat),
                      (''TableBundles'', map (table_entry server_url) td),
                      (''MediaResources'', map (media_entry server_url) md)]"
    by (auto simp: get_game_files_def split: sum.splits)
  let ?media = "map (media_entry server_url) md"
  have rewritten: "\<forall>k < length md.
      f_url (?media ! k) =
        str_replace backslash CHR ''/''
          (server_url @ ''/MediaResources/'' @ mr_path (snd (md ! k))) \<and>
      f_path (?media ! k) = Some (str_replace backslash CHR ''/'' (mr_path (snd (md ! k))))"
    by (simp add: media_entry_def)
  have clean: "\<forall>e \<in> set ?media. backslash \<notin> set (f_url e) \<and>
      (\<exists>p. f_path e = Some p \<and> backslash \<notin> set p)"
    using str_replace_no_old [OF backslash_not_slash] by (auto simp: media_entry_def)
  have others: "\<forall>e \<in> set (map (android_entry server_url) ad @ map (ios_entry server_url) idat @
      map (table_entry server_url) td). f_path e = None"
    by (auto simp: android_entry_def ios_entry_def table_entry_def)
  show ?thesis
    apply (rule exI [of _ server_url])
    apply (rule exI [of _ "map (android_entry server_url) ad"])
    apply (rule exI [of _ "map (ios_entry server_url) idat"])
    apply (rule exI [of _ "map (table_entry server_url) td"])
    apply (rule exI [of _ ?media])
    using su idx rewritten clean others
    by (simp add: android_entry_def ios_entry_def table_entry_def)
qed

theorem get_game_files_media_slashes_witness:
  "get_game_files (Inl ValueError) (Some ''https://h'')
     [\<lparr>bf_Name = [CHR ''a'', CHR 0x5C, CHR ''b''], bf_Crc = Some 7, bf_Size = None\<rparr>] [] []
     [(''k'', \<lparr>mr_path = [CHR ''x'', CHR 0x5C, CHR ''y''], mr_crc = None, mr_bytes = Some 5\<rparr>)]
   = Inr [(''AndroidAssetBundles'',
            [\<lparr>f_url = ''https://h/Android/'' @ [CHR ''a'', CHR 0x5C, CHR ''b''], f_path = None,
              f_crc = 7, f_size = Some 0, f_bytes = None\<rparr>]),
          (''iOSAssetBundles'', []), (''TableBundles'', []),
          (''MediaResources'',
            [\<lparr>f_url = ''https://h/MediaResources/x/y'', f_path = Some ''x/y'',
              f_crc = 0, f_size = None, f_bytes = Some 5\<rparr>])]"
proof -
  have run: "get_game_files (Inl ValueError) (Some ''https://h'')
     [\<lparr>bf_Name = [CHR ''a'', CHR 0x5C, CHR ''b''], bf_Crc = Some 7, bf_Size = None\<rparr>] [] []
     [(''k'', \<lparr>mr_path = [CHR ''x'', CHR 0x5C, CHR ''y''], mr_crc = None, mr_bytes = Some 5\<rparr>)]
   = Inr [(''AndroidAssetBundles'', map (android_entry ''https://h'')
            [\<lparr>bf_Name = [CHR ''a'', CHR 0x5C, CHR ''b''], bf_Crc = Some 7, bf_Size = None\<rparr>]),
          (''iOSAssetBundles'', map (ios_entry ''https://h'') []),
          (''TableBundles'', map (table_entry ''https://h'') []),
          (''MediaResources'', map (media_entry ''https://h'')
            [(''k'', \<lparr>mr_path = [CHR ''x'', CHR 0x5C, CHR ''y''], mr_crc = None,
                      mr_bytes = Some 5\<rparr>)])]"
    by (simp add: get_game_files_def fetch_catalog_url_def startswith_any_def startswith_def)
  from get_game_files_media_slashes [OF run] show ?thesis
    by (simp add: get_game_files_def fetch_catalog_url_def startswith_any_def startswith_def
        android_entry_def media_entry_def str_replace_def backslash_def get_or_def)
qed

section \<open>The password of a table archive\<close>



section \<open>Locating the bootstrap blob\<close>

lemma index_of_Some:
  "index_of pat c = Some i \<Longrightarrow>
     take (length pat) (drop i c) = pat \<and> i + length pat \<le> length c \<and>
     (\<forall>j<i. take (length pat) (drop j c) \<noteq> pat)"
proof (induction c arbitrary: i)
  case Nil
  then show ?case by (simp split: if_splits)
next
  case (Cons x xs)
  show ?case
  proof (cases "take (length pat) (x # xs) = pat")
    case True
    with Cons.prems have "i = 0" by simp
    moreover have "length pat \<le> length (x # xs)"
    proof -
      have "length (take (length pat) (x # xs)) = length pat" using True by simp
      then show ?thesis by simp
    qed
    ultimately show ?thesis using True by simp
  next
    case False
    with Cons.prems obtain i' where i': "index_of pat xs = Some i'" "i = Suc i'"
      by auto
    from Cons.IH [OF i'(1)] have ih: "take (length pat) (drop i' xs) = pat"
      "i' + length pat \<le> length xs" "\<forall>j<i'. take (length pat) (drop j xs) \<noteq> pat"
      by auto
    have "\<forall>j<Suc i'. take (length pat) (drop j (x # xs)) \<noteq> pat"
    proof (intro allI impI)
      fix j assume "j < Suc i'"
      show "take (length pat) (drop j (x # xs)) \<noteq> pat"
      proof (cases j)
        case 0
        then show ?thesis using False by simp
      next
        case (Suc j')
        with \<open>j < Suc i'\<close> ih(3) show ?thesis by simp
      qed
    qed
    with ih i'(2) show ?thesis by simp
  qed
qed

lemma index_of_None:
  "index_of pat c = None \<Longrightarrow> j \<le> length c \<Longrightarrow> take (length pat) (drop j c) \<noteq> pat"
proof (induction c arbitrary: j)
  case Nil
  then show ?case by (auto split: if_splits)
next
  case (Cons x xs)
  from Cons.prems(1) have nt: "take (length pat) (x # xs) \<noteq> pat" and r: "index_of pat xs = None"
    by (auto split: if_splits)
  show ?case
  proof (cases j)
    case 0
    then show ?thesis using nt by simp
  next
    case (Suc j')
    with Cons.prems(2) have "j' \<le> length xs" by simp
    from Cons.IH [OF r this] Suc show ?thesis by simp
  qed
qed

lemma index_of_split:
  assumes "index_of pat c = Some i"
  shows "c = take i c @ pat @ drop (i + length pat) c"
proof -
  from index_of_Some [OF assms] have t: "take (length pat) (drop i c) = pat" by simp
  have "c = take i c @ drop i c" by simp
  also have "drop i c = take (length pat) (drop i c) @ drop (length pat) (drop i c)"
    by (rule append_take_drop_id [symmetric])
  also have "\<dots> = pat @ drop (i + length pat) c" using t by (simp add: add.commute)
  finally show ?thesis .
qed

lemma search_entries_Some:
  "search_entries es pat = Some d \<Longrightarrow>
     \<exists>k content i. k < length es \<and> es ! k = Readable content \<and>
       (\<forall>j<k. \<forall>c. es ! j = Readable c \<longrightarrow> index_of pat c = None) \<and>
       index_of pat content = Some i \<and>
       d = take (length content - (i + length pat) - 2) (drop (i + length pat) content)"
proof (induction es pat rule: search_entries.induct)
  case (1 pat)
  then show ?case by simp
next
  case (2 es pat)
  then obtain k content i where h: "k < length es" "es ! k = Readable content"
     "\<forall>j<k. \<forall>c. es ! j = Readable c \<longrightarrow> index_of pat c = None"
     "index_of pat content = Some i"
     "d = take (length content - (i + length pat) - 2) (drop (i + length pat) content)"
    by auto
  have "\<forall>j<Suc k. \<forall>c. (NotFile # es) ! j = Readable c \<longrightarrow> index_of pat c = None"
    using h(3) by (auto simp: nth_Cons split: nat.splits)
  with h show ?case
    by (intro exI [of _ "Suc k"] exI [of _ content] exI [of _ i]) simp
next
  case (3 es pat)
  then obtain k content i where h: "k < length es" "es ! k = Readable content"
     "\<forall>j<k. \<forall>c. es ! j = Readable c \<longrightarrow> index_of pat c = None"
     "index_of pat content = Some i"
     "d = take (length content - (i + length pat) - 2) (drop (i + length pat) content)"
    by auto
  have "\<forall>j<Suc k. \<forall>c. (Unreadable # es) ! j = Readable c \<longrightarrow> index_of pat c = None"
    using h(3) by (auto simp: nth_Cons split: nat.splits)
  with h show ?case
    by (intro exI [of _ "Suc k"] exI [of _ content] exI [of _ i]) simp
next
  case (4 content0 es pat)
  show ?case
  proof (cases "index_of pat content0")
    case None
    with 4 obtain k content i where h: "k < length es" "es ! k = Readable content"
     "\<forall>j<k. \<forall>c. es ! j = Readable c \<longrightarrow> index_of pat c = None"
     "index_of pat content = Some i"
     "d = take (length content - (i + length pat) - 2) (drop (i + length pat) content)"
      by auto
    have "\<forall>j<Suc k. \<forall>c. (Readable content0 # es) ! j = Readable c \<longrightarrow> index_of pat c = None"
      using h(3) None by (auto simp: nth_Cons split: nat.splits)
    with h show ?thesis
      by (intro exI [of _ "Suc k"] exI [of _ content] exI [of _ i]) simp
  next
    case (Some i)
    with "4.prems" have "d = take (length content0 - (i + length pat) - 2) (drop (i + length pat) content0)"
      by (simp add: Let_def)
    with Some show ?thesis
      by (intro exI [of _ 0] exI [of _ content0] exI [of _ i]) simp
  qed
qed

lemma search_entries_None:
  "search_entries es pat = None \<Longrightarrow> Readable c \<in> set es \<Longrightarrow> index_of pat c = None"
  by (induction es pat rule: search_entries.induct) (auto split: option.splits)

lemma first_result_Some:
  "first_result fs ps = Some d \<longleftrightarrow>
     d \<noteq> [] \<and> (\<exists>i<length ps. search_for_pattern fs (ps ! i) pattern = Some d \<and>
        (\<forall>j<i. search_for_pattern fs (ps ! j) pattern \<in> {None, Some []}))"
proof (induction ps)
  case Nil
  then show ?case by simp
next
  case (Cons p ps)
  show ?case
  proof (cases "search_for_pattern fs p pattern \<in> {None, Some []}")
    case True
    then have eq: "first_result fs (p # ps) = first_result fs ps" by auto
    have "(\<exists>i<length (p # ps). search_for_pattern fs ((p # ps) ! i) pattern = Some d \<and>
        (\<forall>j<i. search_for_pattern fs ((p # ps) ! j) pattern \<in> {None, Some []})) \<longleftrightarrow>
        (\<exists>i<length ps. search_for_pattern fs (ps ! i) pattern = Some d \<and>
        (\<forall>j<i. search_for_pattern fs (ps ! j) pattern \<in> {None, Some []}))" (is "?L \<longleftrightarrow> ?R") if "d \<noteq> []"
    proof
      assume ?L
      then obtain i where i: "i < length (p # ps)" "search_for_pattern fs ((p # ps) ! i) pattern = Some d"
        "\<forall>j<i. search_for_pattern fs ((p # ps) ! j) pattern \<in> {None, Some []}" by blast
      from i(2) True that obtain i' where i': "i = Suc i'" by (cases i) auto
      with i have "i' < length ps" "search_for_pattern fs (ps ! i') pattern = Some d" by auto
      moreover have "\<forall>j<i'. search_for_pattern fs (ps ! j) pattern \<in> {None, Some []}"
        using i(3) i' by (metis Suc_less_eq nth_Cons_Suc)
      ultimately show ?R by blast
    next
      assume ?R
      then obtain i where i: "i < length ps" "search_for_pattern fs (ps ! i) pattern = Some d"
        "\<forall>j<i. search_for_pattern fs (ps ! j) pattern \<in> {None, Some []}" by blast
      have "\<forall>j<Suc i. search_for_pattern fs ((p # ps) ! j) pattern \<in> {None, Some []}"
        using i(3) True by (auto simp: nth_Cons split: nat.splits)
      with i(1,2) show ?L by (intro exI [of _ "Suc i"]) simp
    qed
    with eq Cons.IH show ?thesis by auto
  next
    case False
    then obtain r where r: "search_for_pattern fs p pattern = Some r" "r \<noteq> []" by auto
    then have eq: "first_result fs (p # ps) = Some r" by simp
    have "(\<exists>i<length (p # ps). search_for_pattern fs ((p # ps) ! i) pattern = Some d \<and>
        (\<forall>j<i. search_for_pattern fs ((p # ps) ! j) pattern \<in> {None, Some []})) \<longleftrightarrow> d = r"
      (is "?L \<longleftrightarrow> _")
    proof
      assume ?L
      then obtain i where i: "i < length (p # ps)" "search_for_pattern fs ((p # ps) ! i) pattern = Some d"
        "\<forall>j<i. search_for_pattern fs ((p # ps) ! j) pattern \<in> {None, Some []}" by blast
      have "i = 0"
      proof (rule ccontr)
        assume "i \<noteq> 0"
        then have "0 < i" by simp
        with i(3) have "search_for_pattern fs ((p # ps) ! 0) pattern \<in> {None, Some []}" by blast
        with False show False by simp
      qed
      with i(2) r show "d = r" by simp
    next
      assume "d = r"
      with r show ?L by (intro exI [of _ 0]) simp
    qed
    with eq r show ?thesis by auto
  qed
qed

lemma cache_paths_loop_set:
  "set (cache_paths_loop fs ds ex) =
     {VersionPath n | n. (n, True) \<in> set ds \<and> rglob fs (VersionPath n) \<noteq> None \<and>
        VersionPath n \<notin> set ex}"
  by (induction fs ds ex rule: cache_paths_loop.induct) auto

lemma search_paths_others:
  "\<exists>others. search_paths fs version =
      (case version of None \<Rightarrow> [] | Some v \<Rightarrow> if v = [] then [] else [VersionPath v]) @
      [DefaultPath] @ others \<and>
     set others = {VersionPath n | n. \<exists>ds. iterdir fs = Some ds \<and> (n, True) \<in> set ds \<and>
        rglob fs (VersionPath n) \<noteq> None \<and>
        VersionPath n \<notin> set (case version of None \<Rightarrow> []
                                 | Some v \<Rightarrow> if v = [] then [] else [VersionPath v])}"
proof -
  let ?pre = "(case version of None \<Rightarrow> [] | Some v \<Rightarrow> if v = [] then [] else [VersionPath v]) @
      [DefaultPath]"
  have "search_paths fs version = ?pre @ get_cache_paths fs ?pre"
    by (simp add: search_paths_def Let_def)
  moreover have "set (get_cache_paths fs ?pre) =
     {VersionPath n | n. \<exists>ds. iterdir fs = Some ds \<and> (n, True) \<in> set ds \<and>
        rglob fs (VersionPath n) \<noteq> None \<and>
        VersionPath n \<notin> set (case version of None \<Rightarrow> []
                                 | Some v \<Rightarrow> if v = [] then [] else [VersionPath v])}"
  proof (cases "iterdir fs")
    case None
    then show ?thesis by (simp add: get_cache_paths_def)
  next
    case (Some ds)
    then show ?thesis
      by (auto simp: get_cache_paths_def cache_paths_loop_set split: option.splits if_splits)
  qed
  ultimately show ?thesis by auto
qed

lemma search_for_pattern_None:
  assumes "search_for_pattern fs p pat = None" "rglob fs p = Some es" "Readable c \<in> set es"
    "j \<le> length c"
  shows "take (length pat) (drop j c) \<noteq> pat"
proof -
  from assms(1,2) have "search_entries es pat = None"
    by (simp add: search_for_pattern_def)
  from search_entries_None [OF this assms(3)] have "index_of pat c = None" .
  from index_of_None [OF this assms(4)] show ?thesis .
qed

lemma search_for_pattern_payload:
  assumes "search_for_pattern fs p pat = Some d"
  shows "\<exists>es k content i. rglob fs p = Some es \<and> k < length es \<and> es ! k = Readable content \<and>
     (\<forall>j<k. \<forall>c. es ! j = Readable c \<longrightarrow> index_of pat c = None) \<and>
     content = take i content @ pat @ drop (i + length pat) content \<and>
     (\<forall>j<i. take (length pat) (drop j content) \<noteq> pat) \<and>
     d = take (length content - (i + length pat) - 2) (drop (i + length pat) content)"
proof -
  from assms obtain es where es: "rglob fs p = Some es" "search_entries es pat = Some d"
    by (auto simp: search_for_pattern_def split: option.splits)
  from search_entries_Some [OF es(2)] obtain k content i
    where h: "k < length es" "es ! k = Readable content"
      "\<forall>j<k. \<forall>c. es ! j = Readable c \<longrightarrow> index_of pat c = None"
      "index_of pat content = Some i"
      "d = take (length content - (i + length pat) - 2) (drop (i + length pat) content)"
    by blast
  from index_of_Some [OF h(4)] index_of_split [OF h(4)]
  have "content = take i content @ pat @ drop (i + length pat) content"
    "\<forall>j<i. take (length pat) (drop j content) \<noteq> pat"
    by auto
  with es(1) h(1,2,3,5) show ?thesis by blast
qed

text \<open>
  C6, as stated, fails: the default path holds a file with the signature, followed by
  two bytes only, and a cached version holds one with a longer payload. The earlier
  root matches, with an empty payload, and the payload of the later root is returned.
\<close>

theorem find_game_config_empty_payload_counterexample:
  "search_paths example_fs None = [DefaultPath, VersionPath ''1.50''] \<and>
   index_of pattern (pattern @ [0, 0]) = Some 0 \<and>
   search_for_pattern example_fs DefaultPath pattern = Some [] \<and>
   find_game_config example_fs None = Some [1, 2]"
  by (simp add: find_game_config_def search_paths_def get_cache_paths_def
      search_for_pattern_def example_fs_def pattern_def)

text \<open>
  C6, amended: \<open>find_game_config\<close> scans the version-specific path (when a non-empty
  version is given), then the default path, then the other cached versions. In a path,
  the first readable regular file in which the signature occurs gives the payload: the
  bytes after the first occurrence of the signature without their last two. The result
  is the payload of the first path whose payload is not empty; a path whose payload is
  empty is passed over like a path without a match, and the result is \<open>None\<close> when no
  path gives a non-empty payload.
\<close>

theorem find_game_config_first_nonempty_payload:
  "(\<exists>others. search_paths fs version =
      (case version of None \<Rightarrow> [] | Some v \<Rightarrow> if v = [] then [] else [VersionPath v]) @
      [DefaultPath] @ others \<and>
      set others = {VersionPath n | n. \<exists>ds. iterdir fs = Some ds \<and> (n, True) \<in> set ds \<and>
        rglob fs (VersionPath n) \<noteq> None \<and>
        VersionPath n \<notin> set (case version of None \<Rightarrow> []
                                 | Some v \<Rightarrow> if v = [] then [] else [VersionPath v])}) \<and>
   (find_game_config fs version = Some d \<longleftrightarrow>
      d \<noteq> [] \<and>
      (\<exists>i<length (search_paths fs version).
         search_for_pattern fs (search_paths fs version ! i) pattern = Some d \<and>
         (\<forall>j<i. search_for_pattern fs (search_paths fs version ! j) pattern \<in> {None, Some []}))) \<and>
   (search_for_pattern fs p pattern = Some d' \<longrightarrow>
      (\<exists>es k content i. rglob fs p = Some es \<and> k < length es \<and> es ! k = Readable content \<and>
         (\<forall>j<k. \<forall>c. es ! j = Readable c \<longrightarrow> index_of pattern c = None) \<and>
         content = take i content @ pattern @ drop (i + 20) content \<and>
         (\<forall>j<i. take 20 (drop j content) \<noteq> pattern) \<and>
         d' = take (length content - (i + 20) - 2) (drop (i + 20) content))) \<and>
   (search_for_pattern fs p pattern = None \<longrightarrow>
      (\<forall>es c j. rglob fs p = Some es \<and> Readable c \<in> set es \<and> j \<le> length c \<longrightarrow>
         take 20 (drop j c) \<noteq> pattern))"
proof -
  have len: "length pattern = 20" by (simp add: pattern_def)
  have a: "\<exists>others. search_paths fs version =
      (case version of None \<Rightarrow> [] | Some v \<Rightarrow> if v = [] then [] else [VersionPath v]) @
      [DefaultPath] @ others \<and>
      set others = {VersionPath n | n. \<exists>ds. iterdir fs = Some ds \<and> (n, True) \<in> set ds \<and>
        rglob fs (VersionPath n) \<noteq> None \<and>
        VersionPath n \<notin> set (case version of None \<Rightarrow> []
                                 | Some v \<Rightarrow> if v = [] then [] else [VersionPath v])}"
    by (rule search_paths_others)
  have n: "search_for_pattern fs p pattern = None \<longrightarrow>
      (\<forall>es c j. rglob fs p = Some es \<and> Readable c \<in> set es \<and> j \<le> length c \<longrightarrow>
         take 20 (drop j c) \<noteq> pattern)"
    using search_for_pattern_None [of fs p pattern] by (simp add: len)
  have b: "find_game_config fs version = Some d \<longleftrightarrow>
      d \<noteq> [] \<and>
      (\<exists>i<length (search_paths fs version).
         search_for_pattern fs (search_paths fs version ! i) pattern = Some d \<and>
         (\<forall>j<i. search_for_pattern fs (search_paths fs version ! j) pattern \<in> {None, Some []}))"
    unfolding find_game_config_def by (rule first_result_Some)
  have c: "search_for_pattern fs p pattern = Some d' \<longrightarrow>
      (\<exists>es k content i. rglob fs p = Some es \<and> k < length es \<and> es ! k = Readable content \<and>
         (\<forall>j<k. \<forall>c. es ! j = Readable c \<longrightarrow> index_of pattern c = None) \<and>
         content = take i content @ pattern @ drop (i + 20) content \<and>
         (\<forall>j<i. take 20 (drop j content) \<noteq> pattern) \<and>
         d' = take (length content - (i + 20) - 2) (drop (i + 20) content))"
    using search_for_pattern_payload [of fs p pattern d'] by (simp add: len)
  from a b c n show ?thesis by blast
qed

theorem find_game_config_first_nonempty_payload_witness:
  "search_paths example_fs (Some ''1.49'') = [VersionPath ''1.49'', DefaultPath, VersionPath ''1.50''] \<and>
   search_for_pattern example_fs (VersionPath ''1.49'') pattern = None \<and>
   search_for_pattern example_fs DefaultPath pattern = Some [] \<and>
   search_for_pattern example_fs (VersionPath ''1.50'') pattern = Some [1, 2] \<and>
   rglob example_fs (VersionPath ''1.50'') = Some [Unreadable, Readable (9 # pattern @ [1, 2, 3, 4])] \<and>
   index_of pattern (9 # pattern @ [1, 2, 3, 4]) = Some 1 \<and>
   find_game_config example_fs (Some ''1.49'') = Some [1, 2]"
  using find_game_config_first_nonempty_payload
    [of example_fs "Some ''1.49''" "[1, 2]" "VersionPath ''1.50''" "[1, 2]"]
  by (simp add: find_game_config_def search_paths_def get_cache_paths_def
      search_for_pattern_def example_fs_def pattern_def)

section \<open>Failures of catalog acquisition\<close>









section \<open>The steps of one download\<close>

lemma trace_emit [simp]: "trace (emit e w) = trace w @ [e]"
  by (simp add: emit_def)

lemma files_emit [simp]: "files (emit e w) = files w"
  by (simp add: emit_def)

lemma attempt_download_trace:
  "attempt_download en url fp w = (r, w1) \<Longrightarrow> trace w1 = trace w @ [GET url]"
  by (auto simp: attempt_download_def Let_def split: get_result.splits if_splits)




lemma loop_complete_attempt:
  assumes "attempt < retries" and "attempt_download en url fp w = (Some n, w1)"
    and "int n = size'"
  shows "download_file_content_loop en url fp size' retries attempt w =
     (True, emit (PrintSuccess fp) w1)"
  using assms
  by (subst download_file_content_loop.simps) simp





lemma crc32_of_letter_a: "crc32_of [0x61] = 3904355907"
  by (simp add: crc32_of_def crc32_def crc_update_def crc_shift_def)

lemma get_file_size_loop_numeral:
  "get_file_size_loop en url (numeral k) w =
     (let w1 = emit (HEAD url) w in
      case head_resp en url (count_list (trace w) (HEAD url)) of
        HeadResponse Absent \<Rightarrow> (Some 0, w1)
      | HeadResponse (Length n) \<Rightarrow> (Some n, w1)
      | HeadResponse Malformed \<Rightarrow> (None, w1)
      | HeadClientError \<Rightarrow> (None, w1)
      | HeadTimeoutError \<Rightarrow> get_file_size_loop en url (pred_numeral k) w1)"
  by (simp add: numeral_eq_Suc)


section \<open>Retries of a failing transfer\<close>




section \<open>A CRC mismatch after a complete transfer\<close>

text \<open>
  C1: what the code does when the first transfer of an entry completes with the
  probed size and the CRC-32 of the written file differs from the declared one. The
  file is deleted, and \<open>_download_file\<close> returns after that one GET request: the
  mismatch is logged as "retrying", but no further attempt is made, whatever the
  number of retries.
\<close>

theorem download_file_crc_mismatch:
  assumes "fst (check_existing_file fp crc w) = False"
    and "get_file_size en url w = (Some n, w2)"
    and "attempt_download en url fp w2 = (Some m, w3)"
    and "int m = n"
    and "files w3 fp = Some c"
    and "crc32_of c \<noteq> crc"
    and "0 < retries"
  shows "download_file en url fp crc retries w =
           (None, w3\<lparr>files := (files w3)(fp := None),
                     trace := trace w2 @ [GET url, PrintSuccess fp, LogHashMismatch fp]\<rparr>)"
proof -
  from assms(1) have ce: "check_existing_file fp crc w = (False, w)"
    by (auto simp: check_existing_file_def split: option.splits if_splits)
  from loop_complete_attempt [OF assms(7) assms(3) assms(4)]
  have dl: "download_file_content en url fp n retries w2 = (True, emit (PrintSuccess fp) w3)"
    by (simp add: download_file_content_def)
  have vf: "verify_download fp crc (emit (PrintSuccess fp) w3) =
      (Inr False, (emit (LogHashMismatch fp) (emit (PrintSuccess fp) w3))
                    \<lparr>files := (files w3)(fp := None)\<rparr>)"
    using assms(5,6) by (simp add: verify_download_def calculate_crc32_def Let_def)
  from attempt_download_trace [OF assms(3)] have tr: "trace w3 = trace w2 @ [GET url]" .
  have "download_file en url fp crc retries w =
      (None, (emit (LogHashMismatch fp) (emit (PrintSuccess fp) w3))
               \<lparr>files := (files w3)(fp := None)\<rparr>)"
    by (simp add: download_file_def ce assms(2) dl vf)
  then show ?thesis
    by (simp add: emit_def tr)
qed

theorem download_file_crc_mismatch_witness:
  "fst (check_existing_file ''p'' 1 empty_world) = False \<and>
   get_file_size example_env ''u'' empty_world = (Some 1, \<lparr>files = Map.empty, trace = [HEAD ''u'']\<rparr>) \<and>
   attempt_download example_env ''u'' ''p'' \<lparr>files = Map.empty, trace = [HEAD ''u'']\<rparr> =
     (Some 1, \<lparr>files = [''p'' \<mapsto> [0x61]], trace = [HEAD ''u'', GET ''u'']\<rparr>) \<and>
   crc32_of [0x61] = 3904355907 \<and>
   get_resp example_env ''u'' 1 = GetStream [[0x61]] False \<and>
   download_file example_env ''u'' ''p'' 1 3 empty_world =
     (None, \<lparr>files = Map.empty,
             trace = [HEAD ''u'', GET ''u'', PrintSuccess ''p'', LogHashMismatch ''p'']\<rparr>)"
proof -
  have a: "fst (check_existing_file ''p'' 1 empty_world) = False"
    by (simp add: check_existing_file_def empty_world_def)
  have b: "get_file_size example_env ''u'' empty_world =
      (Some 1, \<lparr>files = Map.empty, trace = [HEAD ''u'']\<rparr>)"
    by (simp add: get_file_size_def get_file_size_loop_numeral example_env_def empty_world_def
        emit_def Let_def)
  have c: "attempt_download example_env ''u'' ''p'' \<lparr>files = Map.empty, trace = [HEAD ''u'']\<rparr> =
     (Some 1, \<lparr>files = [''p'' \<mapsto> [0x61]], trace = [HEAD ''u'', GET ''u'']\<rparr>)"
    by (simp add: attempt_download_def example_env_def emit_def Let_def)
  have d: "crc32_of [0x61] = 3904355907"
    by (simp add: crc32_of_def crc32_def crc_update_def crc_shift_def)
  have e: "get_resp example_env ''u'' 1 = GetStream [[0x61]] False"
    by (simp add: example_env_def)
  from download_file_crc_mismatch [OF a b c, of "[0x61]" 3] d
  have "download_file example_env ''u'' ''p'' 1 3 empty_world =
     (None, \<lparr>files = Map.empty,
             trace = [HEAD ''u'', GET ''u'', PrintSuccess ''p'', LogHashMismatch ''p'']\<rparr>)"
    by simp
  with a b c d e show ?thesis by simp
qed

section \<open>The size probe\<close>






section \<open>Skipping what is already downloaded\<close>

lemma download_file_skip:
  "files w p = Some c \<Longrightarrow> crc32_of c = crc \<Longrightarrow>
   download_file en url p crc retries w = (None, emit (PrintSkipping p) w)"
  by (simp add: download_file_def check_existing_file_def)

lemma download_category_skip:
  "\<forall>f \<in> set fs. \<exists>c. files w (joinpath en base (get_file_path en f)) = Some c \<and>
       crc32_of c = f_crc f \<Longrightarrow>
   download_category en fs base w =
     (None, w\<lparr>trace := trace w @
        map (\<lambda>f. PrintSkipping (joinpath en base (get_file_path en f))) fs\<rparr>)"
proof (induction fs arbitrary: w)
  case Nil
  then show ?case by simp
next
  case (Cons f fs)
  from Cons.prems obtain c where c: "files w (joinpath en base (get_file_path en f)) = Some c"
    "crc32_of c = f_crc f" by auto
  let ?w1 = "emit (PrintSkipping (joinpath en base (get_file_path en f))) w"
  have "\<forall>g \<in> set fs. \<exists>c. files ?w1 (joinpath en base (get_file_path en g)) = Some c \<and>
       crc32_of c = f_crc g"
    using Cons.prems by simp
  from Cons.IH [OF this] download_file_skip [OF c, of en "f_url f" 3]
  show ?case by (simp add: emit_def)
qed

lemma download_all_categories_skip:
  "\<forall>(category, fs) \<in> set game_files. category \<in> set categories \<longrightarrow>
      (\<forall>f \<in> set fs. \<exists>c.
         files w (joinpath en (joinpath en output category) (get_file_path en f)) = Some c \<and>
         crc32_of c = f_crc f) \<Longrightarrow>
   download_all_categories en game_files categories output w =
     (None, w\<lparr>trace := trace w @
        map PrintSkipping (concat (map (\<lambda>(category, fs).
        if category \<in> set categories
        then map (\<lambda>f. joinpath en (joinpath en output category) (get_file_path en f)) fs
        else []) game_files))\<rparr>)"
proof (induction game_files arbitrary: w)
  case Nil
  then show ?case by simp
next
  case (Cons cf rest)
  obtain category fs where cf: "cf = (category, fs)" by (cases cf)
  show ?case
  proof (cases "category \<in> set categories")
    case False
    with Cons cf show ?thesis by simp
  next
    case True
    with Cons.prems cf have v: "\<forall>f \<in> set fs. \<exists>c.
         files w (joinpath en (joinpath en output category) (get_file_path en f)) = Some c \<and>
         crc32_of c = f_crc f" by simp
    let ?w1 = "w\<lparr>trace := trace w @
        map (\<lambda>f. PrintSkipping (joinpath en (joinpath en output category) (get_file_path en f))) fs\<rparr>"
    have "\<forall>(category, fs) \<in> set rest. category \<in> set categories \<longrightarrow>
      (\<forall>f \<in> set fs. \<exists>c.
         files ?w1 (joinpath en (joinpath en output category) (get_file_path en f)) = Some c \<and>
         crc32_of c = f_crc f)"
      using Cons.prems by simp
    from Cons.IH [OF this] download_category_skip [OF v] True cf
    show ?thesis by (simp add: comp_def)
  qed
qed

text \<open>
  C4: when, for every entry of every selected category, the destination file exists
  and its CRC-32 equals the declared one, a run of \<open>download\<close> leaves the files as they
  are and adds to the trace one skip message per entry and nothing else: no HEAD and
  no GET request is sent.
\<close>

theorem download_skips_valid_files:
  assumes "\<forall>(category, fs) \<in> set game_files.
     category \<in> set (selected_categories androidassets iosassets tables media) \<longrightarrow>
      (\<forall>f \<in> set fs. \<exists>c.
         files w (joinpath en (joinpath en output category) (get_file_path en f)) = Some c \<and>
         crc32_of c = f_crc f)"
  shows "download en game_files output androidassets iosassets tables media limit w =
     (limit, None, w\<lparr>trace := trace w @
        map PrintSkipping (concat (map (\<lambda>(category, fs).
          if category \<in> set (selected_categories androidassets iosassets tables media)
          then map (\<lambda>f. joinpath en (joinpath en output category) (get_file_path en f)) fs
          else []) game_files))\<rparr>)"
  using download_all_categories_skip [OF assms]
  by (simp add: download_def Let_def)

theorem download_skips_valid_files_witness:
  "download example_env
     [(''AndroidAssetBundles'',
        [\<lparr>f_url = ''h/x'', f_path = None, f_crc = 5, f_size = Some 1, f_bytes = None\<rparr>]),
      (''TableBundles'',
        [\<lparr>f_url = ''h/a.zip'', f_path = None, f_crc = 3904355907, f_size = Some 1, f_bytes = None\<rparr>,
         \<lparr>f_url = ''h/b.zip'', f_path = None, f_crc = 0, f_size = Some 0, f_bytes = None\<rparr>])]
     ''out'' False False True False (Some 5)
     \<lparr>files = [''out/TableBundles/a.zip'' \<mapsto> [0x61], ''out/TableBundles/b.zip'' \<mapsto> []],
      trace = []\<rparr> =
   (Some 5, None,
    \<lparr>files = [''out/TableBundles/a.zip'' \<mapsto> [0x61], ''out/TableBundles/b.zip'' \<mapsto> []],
     trace = [PrintSkipping ''out/TableBundles/a.zip'', PrintSkipping ''out/TableBundles/b.zip'']\<rparr>)"
proof -
  have crc_empty: "crc32_of [] = 0"
    by (simp add: crc32_of_def crc32_def)
  have valid: "\<forall>(category, fs) \<in> set
     [(''AndroidAssetBundles'',
        [\<lparr>f_url = ''h/x'', f_path = None, f_crc = 5, f_size = Some 1, f_bytes = None\<rparr>]),
      (''TableBundles'',
        [\<lparr>f_url = ''h/a.zip'', f_path = None, f_crc = 3904355907, f_size = Some 1, f_bytes = None\<rparr>,
         \<lparr>f_url = ''h/b.zip'', f_path = None, f_crc = 0, f_size = Some 0, f_bytes = None\<rparr>])].
     category \<in> set (selected_categories False False True False) \<longrightarrow>
      (\<forall>f \<in> set fs. \<exists>c.
         files \<lparr>files = [''out/TableBundles/a.zip'' \<mapsto> [0x61], ''out/TableBundles/b.zip'' \<mapsto> []],
                trace = []\<rparr>
           (joinpath example_env (joinpath example_env ''out'' category)
              (get_file_path example_env f)) = Some c \<and>
         crc32_of c = f_crc f)"
    by (simp add: selected_categories_def example_env_def get_file_path_def crc32_of_letter_a crc_empty)
  from download_skips_valid_files [OF valid, of "Some 5"] show ?thesis
    by (simp add: selected_categories_def example_env_def get_file_path_def)
qed

section \<open>Transfers in flight\<close>

lemma all_probing:
  assumes "\<forall>i < j + m. \<not> present i"
  shows "(step present)\<^sup>*\<^sup>* \<lparr>semaphore = limit, tasks = replicate j Probing @ replicate m Pending\<rparr>
           \<lparr>semaphore = limit, tasks = replicate (j + m) Probing\<rparr>"
  using assms
proof (induction m arbitrary: j)
  case 0
  then show ?case by simp
next
  case (Suc m)
  let ?s = "\<lparr>semaphore = limit, tasks = replicate j Probing @ replicate (Suc m) Pending\<rparr>"
  have "step present ?s (set_phase j Probing ?s)"
    by (rule step.probe) (use Suc.prems in \<open>simp_all add: nth_append\<close>)
  moreover have "set_phase j Probing ?s =
      \<lparr>semaphore = limit, tasks = replicate (Suc j) Probing @ replicate m Pending\<rparr>"
    by (simp add: set_phase_def list_update_append replicate_append_same)
  moreover have "(step present)\<^sup>*\<^sup>*
      \<lparr>semaphore = limit, tasks = replicate (Suc j) Probing @ replicate m Pending\<rparr>
      \<lparr>semaphore = limit, tasks = replicate (Suc j + m) Probing\<rparr>"
    by (rule Suc.IH) (use Suc.prems in simp)
  ultimately show ?case by (simp add: converse_rtranclp_into_rtranclp)
qed

text \<open>
  C2: what the code does with the limit. When none of the entries handed to
  \<open>asyncio.gather\<close> is present on disk, the state in which every one of them has its
  HEAD request in flight is reachable, whatever the limit: the semaphore keeps the
  value \<open>download\<close> gave it, and the number of transfers in flight is the number of
  entries.
\<close>

theorem all_entries_in_flight:
  assumes "\<forall>i < length fs. \<not> present i"
  shows "(step present)\<^sup>*\<^sup>* (gather limit fs)
           \<lparr>semaphore = limit, tasks = map (\<lambda>f. Probing) fs\<rparr> \<and>
         in_flight \<lparr>semaphore = limit, tasks = map (\<lambda>f. Probing) fs\<rparr> = length fs"
proof -
  have g: "gather limit fs =
      \<lparr>semaphore = limit, tasks = replicate 0 Probing @ replicate (length fs) Pending\<rparr>"
    by (simp add: gather_def map_replicate_const)
  from all_probing [of 0 "length fs" present limit] assms g
  have "(step present)\<^sup>*\<^sup>* (gather limit fs)
          \<lparr>semaphore = limit, tasks = replicate (length fs) Probing\<rparr>"
    by simp
  then show ?thesis
    by (simp add: in_flight_def map_replicate_const)
qed

theorem all_entries_in_flight_witness:
  "(step (\<lambda>i. False))\<^sup>*\<^sup>* (gather (Some 1) [''h/a'', ''h/b''])
     \<lparr>semaphore = Some 1, tasks = [Probing, Probing]\<rparr> \<and>
   in_flight \<lparr>semaphore = Some 1, tasks = [Probing, Probing]\<rparr> = 2"
  using all_entries_in_flight [of "[''h/a'', ''h/b'']" "\<lambda>i. False" "Some 1"]
  by simp

end
